theory Spec2Isabelle
  imports Main
begin

section \<open>Python strings\<close>

text \<open>
  A Python \<open>str\<close> is modelled as a \<open>string\<close>; each \<open>char\<close> stands for one code point
  (below 256). The glyph stripped by \<open>parse_quote_page\<close> is the ASCII double quote.
\<close>

definition quote_glyph :: char where
  "quote_glyph = CHR 0x22"

text \<open>\<open>s.strip(c)\<close> for a one-character argument: every leading and every trailing
  occurrence of the character is removed.\<close>

definition py_strip :: "char \<Rightarrow> string \<Rightarrow> string" where
  "py_strip c s = rev (dropWhile (\<lambda>x. x = c) (rev (dropWhile (\<lambda>x. x = c) s)))"

text \<open>The code points below 256 for which \<open>str.isspace\<close> holds.\<close>

definition is_space :: "char \<Rightarrow> bool" where
  "is_space c = (c \<in> set [CHR 0x09, CHR 0x0A, CHR 0x0B, CHR 0x0C, CHR 0x0D,
                           CHR 0x1C, CHR 0x1D, CHR 0x1E, CHR 0x1F, CHR 0x20,
                           CHR 0x85, CHR 0xA0])"

text \<open>\<open>s.split()\<close> with no argument: the maximal runs of non-whitespace characters.
  The first argument is the word being read.\<close>

fun split_ws :: "string \<Rightarrow> string \<Rightarrow> string list" where
  "split_ws w [] = (if w = [] then [] else [w])"
| "split_ws w (c # cs) =
     (if is_space c then (if w = [] then split_ws [] cs else w # split_ws [] cs)
      else split_ws (w @ [c]) cs)"

definition py_split :: "string \<Rightarrow> string list" where
  "py_split s = split_ws [] s"

text \<open>\<open>sep.join(xs)\<close>.\<close>

fun py_join :: "string \<Rightarrow> string list \<Rightarrow> string" where
  "py_join sep [] = []"
| "py_join sep [x] = x"
| "py_join sep (x # y # ys) = x @ sep @ py_join sep (y # ys)"

section \<open>The parsed document (BeautifulSoup)\<close>

text \<open>
  A node of the tree BeautifulSoup builds is a tag (name, the values of its \<open>class\<close>
  attribute, its other attributes, its children) or a string. The HTML parser itself is
  a parameter \<open>P\<close> of the functions below: it gives the top-level nodes of a document,
  or rejects the markup, and then the constructor raises \<open>ParserRejectedMarkup\<close>.
\<close>

datatype node =
    Tag string "string list" "(string \<times> string) list" "node list"
  | NavigableString string

text \<open>The exceptions that leave the methods of the scraper.\<close>

datatype py_error = KeyError | OSError | LocationParseError | ParserRejectedMarkup

type_synonym html_parser = "string \<Rightarrow> py_error + node list"

text \<open>The \<open>BeautifulSoup\<close> object is itself a tag, named \<open>[document]\<close>.\<close>

definition BeautifulSoup :: "html_parser \<Rightarrow> string \<Rightarrow> py_error + node" where
  "BeautifulSoup P html_content =
     (case P html_content of
        Inl e \<Rightarrow> Inl e
      | Inr contents \<Rightarrow> Inr (Tag ''[document]'' [] [] contents))"

text \<open>All the nodes below a node, in document order (the node itself excluded).\<close>

fun descendants :: "node \<Rightarrow> node list" where
  "descendants (Tag n cs as ch) = concat (map (\<lambda>c. c # descendants c) ch)"
| "descendants (NavigableString s) = []"

text \<open>\<open>get_text()\<close>: the strings below the node, concatenated in document order.\<close>

fun get_text :: "node \<Rightarrow> string" where
  "get_text (Tag n cs as ch) = concat (map get_text ch)"
| "get_text (NavigableString s) = s"

text \<open>A search by tag name and, when given, by one CSS class: a tag matches \<open>class_\<close>
  when the class is one of the values of its \<open>class\<close> attribute.\<close>

fun matches :: "string \<Rightarrow> string option \<Rightarrow> node \<Rightarrow> bool" where
  "matches name cls (Tag n cs as ch) =
     (n = name \<and> (case cls of None \<Rightarrow> True | Some c \<Rightarrow> c \<in> set cs))"
| "matches name cls (NavigableString s) = False"

definition find_all :: "node \<Rightarrow> string \<Rightarrow> string option \<Rightarrow> node list" where
  "find_all t name cls = filter (matches name cls) (descendants t)"

text \<open>\<open>find\<close> gives the first match, or \<open>None\<close>.\<close>

definition find_first :: "node \<Rightarrow> string \<Rightarrow> string option \<Rightarrow> node option" where
  "find_first t name cls = (case find_all t name cls of [] \<Rightarrow> None | x # _ \<Rightarrow> Some x)"

text \<open>\<open>tag[key]\<close>: a missing attribute raises \<open>KeyError\<close>.\<close>

fun get_item :: "node \<Rightarrow> string \<Rightarrow> py_error + string" where
  "get_item (Tag n cs as ch) key =
     (case map_of as key of None \<Rightarrow> Inl KeyError | Some v \<Rightarrow> Inr v)"
| "get_item (NavigableString s) key = Inl KeyError"

section \<open>Field extraction: \<open>parse_quote_page\<close>\<close>

record entry =
  texto :: string
  autor :: string
  tags :: string
  num_tags :: nat
  num_palavras :: nat
  data_coleta :: string

text \<open>The two strips of line 54, applied in sequence.\<close>

definition normalize_text :: "string \<Rightarrow> string" where
  "normalize_text text = py_strip quote_glyph (py_strip quote_glyph text)"

text \<open>
  The body of the \<open>for\<close> loop for one container. \<open>find\<close> gives \<open>None\<close> for a missing
  element, \<open>None.get_text()\<close> raises \<open>AttributeError\<close>, and the handler skips the
  container: that is the result \<open>None\<close> here. \<open>now\<close> is the reading of the clock,
  already formatted.
\<close>

definition extract_quote :: "string \<Rightarrow> node \<Rightarrow> entry option" where
  "extract_quote now quote_div =
     (case find_first quote_div ''span'' (Some ''text'') of
        None \<Rightarrow> None
      | Some text_node \<Rightarrow>
          let text = normalize_text (get_text text_node) in
          (case find_first quote_div ''small'' (Some ''author'') of
             None \<Rightarrow> None
           | Some author_node \<Rightarrow>
               let author = get_text author_node;
                   tag_list = map get_text (find_all quote_div ''a'' (Some ''tag''));
                   word_count = length (py_split text)
               in Some \<lparr> texto = text, autor = author,
                         tags = py_join '', '' tag_list,
                         num_tags = length tag_list,
                         num_palavras = word_count,
                         data_coleta = now \<rparr>))"

text \<open>The loop over the containers; \<open>clock i\<close> is the time read while the \<open>i\<close>-th
  container is processed.\<close>

fun extract_quotes :: "(nat \<Rightarrow> string) \<Rightarrow> nat \<Rightarrow> node list \<Rightarrow> entry list" where
  "extract_quotes clock i [] = []"
| "extract_quotes clock i (quote_div # rest) =
     (case extract_quote (clock i) quote_div of
        None \<Rightarrow> extract_quotes clock (Suc i) rest
      | Some q \<Rightarrow> q # extract_quotes clock (Suc i) rest)"

definition quote_divs :: "node \<Rightarrow> node list" where
  "quote_divs soup = find_all soup ''div'' (Some ''quote'')"

text \<open>The constructor of line 42 is outside the \<open>try\<close>: when the parser rejects the
  document, its exception leaves the method.\<close>

definition parse_quote_page ::
  "html_parser \<Rightarrow> (nat \<Rightarrow> string) \<Rightarrow> string \<Rightarrow> py_error + entry list" where
  "parse_quote_page P clock html_content =
     (case BeautifulSoup P html_content of
        Inl e \<Rightarrow> Inl e
      | Inr soup \<Rightarrow> Inr (extract_quotes clock 0 (quote_divs soup)))"

section \<open>Pagination: \<open>get_next_page_url\<close>\<close>

text \<open>A tag is always truthy, so \<open>if next_button\<close> and \<open>if next_link\<close> test for \<open>None\<close>.
  \<open>next_link['href']\<close> raises \<open>KeyError\<close> when the attribute is missing, and nothing
  catches it.\<close>

definition get_next_page_url :: "html_parser \<Rightarrow> string \<Rightarrow> string \<Rightarrow> py_error + string option" where
  "get_next_page_url P base_url html_content =
     (case BeautifulSoup P html_content of
        Inl e \<Rightarrow> Inl e
      | Inr soup \<Rightarrow>
          (case find_first soup ''li'' (Some ''next'') of
             None \<Rightarrow> Inr None
           | Some next_button \<Rightarrow>
               (case find_first next_button ''a'' None of
                  None \<Rightarrow> Inr None
                | Some next_link \<Rightarrow>
                    (case get_item next_link ''href'' of
                       Inl e \<Rightarrow> Inl e
                     | Inr href \<Rightarrow> Inr (Some (base_url @ href))))))"

section \<open>Fetching: \<open>get_page_content\<close>\<close>

text \<open>
  What \<open>session.get(url, timeout=10)\<close> does is the network's answer: a response with a
  status code and a body, one of the exceptions of \<open>requests\<close> (subclasses of
  \<open>RequestException\<close>), or an exception that is not a \<open>RequestException\<close>, such as
  the \<open>LocationParseError\<close> of urllib3 for a host label of more than 63 characters.
\<close>

datatype request_exception = ConnectionError | Timeout | TooManyRedirects | InvalidURL

datatype http_outcome =
    Response nat string
  | RequestException request_exception
  | OtherException py_error

text \<open>\<open>response.raise_for_status()\<close> raises \<open>HTTPError\<close> (a \<open>RequestException\<close>) for
  the client and server error codes, 400 to 599, and for no other status.\<close>

definition raise_for_status :: "nat \<Rightarrow> bool" where
  "raise_for_status status = (400 \<le> status \<and> status < 600)"

text \<open>The \<open>except\<close> clause turns every \<open>RequestException\<close> into the result \<open>None\<close>
  (the message it prints is not modelled); any other exception leaves the method.\<close>

definition get_page_content :: "http_outcome \<Rightarrow> py_error + string option" where
  "get_page_content answer =
     (case answer of
        Response status text \<Rightarrow> if raise_for_status status then Inr None else Inr (Some text)
      | RequestException e \<Rightarrow> Inr None
      | OtherException e \<Rightarrow> Inl e)"

section \<open>The crawl: \<open>scrape_all_pages\<close>\<close>

text \<open>
  The effects of the loop are kept as a log of events, in order: a page request with its
  URL, and a call of \<open>time.sleep\<close> with its delay. The progress lines printed on the
  console are not modelled.
\<close>

datatype event = Fetch string | Sleep nat

record crawl =
  quotes_data :: "entry list"
  current_url :: "string option"
  pages_scraped :: nat
  events :: "event list"

text \<open>Truth value of \<open>current_url\<close>: \<open>None\<close> and the empty string are false.\<close>

fun truthy :: "string option \<Rightarrow> bool" where
  "truthy None = False"
| "truthy (Some u) = (u \<noteq> [])"

text \<open>
  The network \<open>net\<close> gives the answer to the \<open>n\<close>-th request of the crawl (counting
  from 0) for the URL asked, and \<open>clock n i\<close> the time read at the \<open>i\<close>-th container of
  that page. Within \<open>scrape_all_pages\<close> the number of requests sent before is
  \<open>pages_scraped\<close>, since a failed request ends the loop.
\<close>

type_synonym network = "nat \<Rightarrow> string \<Rightarrow> http_outcome"

datatype step = Break crawl | Continue crawl | Raise py_error crawl

text \<open>One iteration of the \<open>while\<close> loop, for \<open>current_url = u\<close>. An exception of one
  of the three calls leaves the loop, with what was done before it.\<close>

definition loop_body ::
  "html_parser \<Rightarrow> network \<Rightarrow> (nat \<Rightarrow> nat \<Rightarrow> string) \<Rightarrow> string \<Rightarrow> string \<Rightarrow> crawl \<Rightarrow> step" where
  "loop_body P net clock base_url u st =
     (let st1 = st\<lparr>events := events st @ [Fetch u]\<rparr> in
      case get_page_content (net (pages_scraped st) u) of
        Inl e \<Rightarrow> Raise e st1
      | Inr None \<Rightarrow> Break st1
      | Inr (Some html_content) \<Rightarrow>
          if html_content = [] then Break st1
          else
            (case parse_quote_page P (clock (pages_scraped st)) html_content of
               Inl e \<Rightarrow> Raise e st1
             | Inr page_quotes \<Rightarrow>
                 let st2 = st1\<lparr>quotes_data := quotes_data st1 @ page_quotes\<rparr>
                 in (case get_next_page_url P base_url html_content of
                       Inl e \<Rightarrow> Raise e st2
                     | Inr nxt \<Rightarrow>
                         let st3 = st2\<lparr>current_url := nxt,
                                      pages_scraped := pages_scraped st2 + 1\<rparr>
                         in Continue (if truthy nxt
                                      then st3\<lparr>events := events st3 @ [Sleep 1]\<rparr>
                                      else st3))))"

text \<open>The \<open>while\<close> loop. The result is the final state and the exception that left the
  loop, if any.\<close>

function scrape_loop ::
  "html_parser \<Rightarrow> network \<Rightarrow> (nat \<Rightarrow> nat \<Rightarrow> string) \<Rightarrow> string \<Rightarrow> int \<Rightarrow> crawl
     \<Rightarrow> crawl \<times> py_error option" where
  "scrape_loop P net clock base_url max_pages st =
     (case current_url st of
        None \<Rightarrow> (st, None)
      | Some u \<Rightarrow>
          if u \<noteq> [] \<and> int (pages_scraped st) < max_pages then
            (case loop_body P net clock base_url u st of
               Break st' \<Rightarrow> (st', None)
             | Raise e st' \<Rightarrow> (st', Some e)
             | Continue st' \<Rightarrow> scrape_loop P net clock base_url max_pages st')
          else (st, None))"
  by pat_completeness auto
termination
  by (relation "measure (\<lambda>(P, net, clock, base_url, max_pages, st). nat (max_pages - int (pages_scraped st)))")
     (auto simp: loop_body_def Let_def split: option.splits if_splits sum.splits)

declare scrape_loop.simps [simp del]

text \<open>The scraper object: \<open>base_url\<close> and the accumulated \<open>quotes_data\<close> (the session with
  its constant header has no part in what follows).\<close>

record scraper =
  base_url :: string
  self_quotes_data :: "entry list"

definition CitationScraper :: "string \<Rightarrow> scraper" where
  "CitationScraper url = \<lparr> base_url = url, self_quotes_data = [] \<rparr>"

definition scrape_all_pages ::
  "html_parser \<Rightarrow> network \<Rightarrow> (nat \<Rightarrow> nat \<Rightarrow> string) \<Rightarrow> scraper \<Rightarrow> int \<Rightarrow> crawl \<times> py_error option" where
  "scrape_all_pages P net clock self max_pages =
     scrape_loop P net clock (base_url self) max_pages
       \<lparr> quotes_data = self_quotes_data self,
         current_url = Some (base_url self @ ''/page/1/''),
         pages_scraped = 0,
         events = [] \<rparr>"

text \<open>The URLs requested, in order.\<close>

fun fetched :: "event list \<Rightarrow> string list" where
  "fetched [] = []"
| "fetched (Fetch u # es) = u # fetched es"
| "fetched (Sleep d # es) = fetched es"

section \<open>Writing the dataset: \<open>save_to_csv\<close>\<close>

text \<open>
  The file system: what is at each path, and whether the system lets a file be opened
  for writing there and a directory be created there (permissions, space).
\<close>

datatype fs_node = Dir | File string

record filesys =
  nodes :: "string \<rightharpoonup> fs_node"
  may_write :: "string \<Rightarrow> bool"
  may_mkdir :: "string \<Rightarrow> bool"

text \<open>\<open>os.makedirs(path, exist_ok=True)\<close> for a one-component path.\<close>

definition makedirs :: "filesys \<Rightarrow> string \<Rightarrow> py_error + filesys" where
  "makedirs fs path =
     (case nodes fs path of
        Some Dir \<Rightarrow> Inr fs
      | Some (File c) \<Rightarrow> Inl OSError
      | None \<Rightarrow> if may_mkdir fs path then Inr (fs\<lparr>nodes := (nodes fs)(path \<mapsto> Dir)\<rparr>)
                else Inl OSError)"

text \<open>\<open>os.path.join(a, b)\<close> on POSIX.\<close>

definition os_path_join :: "string \<Rightarrow> string \<Rightarrow> string" where
  "os_path_join a b =
     (if b \<noteq> [] \<and> hd b = CHR ''/'' then b
      else if a = [] \<or> last a = CHR ''/'' then a @ b
      else a @ ''/'' @ b)"

text \<open>The lines \<open>save_to_csv\<close> prints.\<close>

datatype notice = Nenhum_dado_para_salvar | Dados_salvos_em string | Erro_ao_salvar_arquivo

definition fieldnames :: "string list" where
  "fieldnames = [''texto'', ''autor'', ''tags'', ''num_tags'', ''num_palavras'', ''data_coleta'']"

record saved =
  returned :: "py_error + string option"
  disk :: filesys
  printed :: "notice list"

text \<open>
  \<open>csv_text\<close> is the text \<open>csv.DictWriter\<close> produces for a header and rows (a parameter).
  A failure of \<open>open\<close> (the path is a directory, or the system refuses) is an \<open>IOError\<close>
  and is caught; \<open>os.makedirs\<close> is outside the \<open>try\<close>, so its exception leaves the
  method.
\<close>

definition save_to_csv ::
  "(string list \<Rightarrow> entry list \<Rightarrow> string) \<Rightarrow> filesys \<Rightarrow> scraper \<Rightarrow> string \<Rightarrow> saved" where
  "save_to_csv csv_text fs self filename =
     (case makedirs fs ''dados'' of
        Inl e \<Rightarrow> \<lparr> returned = Inl e, disk = fs, printed = [] \<rparr>
      | Inr fs1 \<Rightarrow>
          let filepath = os_path_join ''dados'' filename in
          if self_quotes_data self = [] then
            \<lparr> returned = Inr None, disk = fs1, printed = [Nenhum_dado_para_salvar] \<rparr>
          else if nodes fs1 filepath \<noteq> Some Dir \<and> may_write fs1 filepath then
            \<lparr> returned = Inr (Some filepath),
              disk = fs1\<lparr>nodes := (nodes fs1)(filepath \<mapsto> File (csv_text fieldnames (self_quotes_data self)))\<rparr>,
              printed = [Dados_salvos_em filepath] \<rparr>
          else
            \<lparr> returned = Inr None, disk = fs1, printed = [Erro_ao_salvar_arquivo] \<rparr>)"

section \<open>Documents and predicates used in the statements\<close>

text \<open>A container for which both \<open>find\<close> calls of the loop body give an element.\<close>

definition has_required_fields :: "node \<Rightarrow> bool" where
  "has_required_fields quote_div =
     (find_first quote_div ''span'' (Some ''text'') \<noteq> None \<and>
      find_first quote_div ''small'' (Some ''author'') \<noteq> None)"

text \<open>A container whose text element is empty.\<close>

definition empty_text_page :: "node list" where
  "empty_text_page =
     [Tag ''div'' [''quote''] []
        [Tag ''span'' [''text''] [] [],
         Tag ''small'' [''author''] [] [NavigableString ''Jane Austen'']]]"

text \<open>Two containers: the first has no author element, the author element of the second
  is empty.\<close>

definition mixed_page :: "node list" where
  "mixed_page =
     [Tag ''div'' [''quote''] []
        [Tag ''span'' [''text''] [] [NavigableString ''First'']],
      Tag ''div'' [''quote''] []
        [Tag ''span'' [''text''] [] [NavigableString ''To be''],
         Tag ''small'' [''author''] [] []]]"

text \<open>Two containers, the first without an author element.\<close>

definition no_author_page :: "node list" where
  "no_author_page =
     [Tag ''div'' [''quote''] []
        [Tag ''span'' [''text''] [] [NavigableString ''First'']],
      Tag ''div'' [''quote''] []
        [Tag ''span'' [''text''] [] [NavigableString ''Second''],
         Tag ''small'' [''author''] [] [NavigableString ''Jane Austen'']]]"

text \<open>A pager whose \<open>next\<close> item holds a link without \<open>href\<close>.\<close>

definition next_without_href :: "node list" where
  "next_without_href =
     [Tag ''ul'' [''pager''] []
        [Tag ''li'' [''next''] [] [Tag ''a'' [] [] [NavigableString ''Next'']]]]"

text \<open>A page with no container and a link to page 2.\<close>

definition page_with_next :: "node list" where
  "page_with_next =
     [Tag ''li'' [''next''] [] [Tag ''a'' [] [(''href'', ''/page/2/'')] [NavigableString ''Next'']]]"

text \<open>A site of two pages: the first links to the second, the second has no \<open>next\<close>
  marker. The parser knows the bodies \<open>one\<close> and \<open>two\<close>; any other document is empty.\<close>

definition first_page :: "node list" where
  "first_page =
     [Tag ''div'' [''quote''] []
        [Tag ''span'' [''text''] [] [NavigableString ''First''],
         Tag ''small'' [''author''] [] [NavigableString ''Jane Austen'']],
      Tag ''li'' [''next''] [] [Tag ''a'' [] [(''href'', ''/page/2/'')] [NavigableString ''Next'']]]"

definition second_page :: "node list" where
  "second_page =
     [Tag ''div'' [''quote''] []
        [Tag ''span'' [''text''] [] [NavigableString ''Second''],
         Tag ''small'' [''author''] [] [NavigableString ''Mark Twain'']]]"

definition two_page_parser :: html_parser where
  "two_page_parser html =
     (if html = ''one'' then Inr first_page else if html = ''two'' then Inr second_page else Inr [])"

definition two_page_site :: network where
  "two_page_site n url =
     (if url = ''http://q/page/1/'' then Response 200 ''one''
      else if url = ''http://q/page/2/'' then Response 200 ''two''
      else Response 404 ''Not Found'')"

definition fixed_clock :: "nat \<Rightarrow> nat \<Rightarrow> string" where
  "fixed_clock n i = ''2024-01-01 00:00:00''"

text \<open>The state of a crawl after the first page, with one entry collected.\<close>

definition after_first_page :: crawl where
  "after_first_page =
     \<lparr> quotes_data = [\<lparr>texto = ''First'', autor = ''Jane Austen'', tags = [], num_tags = 0,
                        num_palavras = 1, data_coleta = ''2024-01-01 00:00:00''\<rparr>],
       current_url = Some ''http://q/page/2/'',
       pages_scraped = 1,
       events = [Fetch ''http://q/page/1/'', Sleep 1] \<rparr>"

text \<open>A file system with nothing in it that refuses nothing, and a scraper that holds one
  entry.\<close>

definition empty_fs :: filesys where
  "empty_fs = \<lparr> nodes = Map.empty, may_write = (\<lambda>p. True), may_mkdir = (\<lambda>p. True) \<rparr>"

text \<open>A file system in which \<open>dados\<close> is a regular file.\<close>

definition dados_is_file :: filesys where
  "dados_is_file =
     \<lparr> nodes = [''dados'' \<mapsto> File ''notes''], may_write = (\<lambda>p. True), may_mkdir = (\<lambda>p. True) \<rparr>"

definition one_quote :: scraper where
  "one_quote =
     \<lparr> base_url = ''http://q'',
       self_quotes_data = [\<lparr>texto = ''First'', autor = ''Jane Austen'', tags = [], num_tags = 0,
                        num_palavras = 1, data_coleta = ''2024-01-01 00:00:00''\<rparr>] \<rparr>"

section \<open>Properties of the text normalisation\<close>

lemma dropWhile_replicate_append:
  "dropWhile (\<lambda>x. x = c) (replicate m c @ s) = dropWhile (\<lambda>x. x = c) s"
  by (induction m) simp_all

lemma dropWhile_no_head:
  "s = [] \<or> hd s \<noteq> c \<Longrightarrow> dropWhile (\<lambda>x. x = c) s = s"
  by (cases s) auto

lemma py_strip_only_glyphs: "py_strip c (replicate m c @ replicate n c) = []"
proof -
  have "dropWhile (\<lambda>x. x = c) (replicate m c @ replicate n c @ []) = dropWhile (\<lambda>x. x = c) []"
    by (simp only: dropWhile_replicate_append)
  then have "dropWhile (\<lambda>x. x = c) (replicate m c @ replicate n c) = []"
    by (simp only: append_Nil2 dropWhile.simps)
  then show ?thesis
    by (simp only: py_strip_def rev.simps dropWhile.simps)
qed

text \<open>Whatever the number of glyphs on each side, \<open>strip\<close> leaves the core.\<close>

lemma py_strip_layers:
  assumes "s = [] \<or> (hd s \<noteq> c \<and> last s \<noteq> c)"
  shows "py_strip c (replicate m c @ s @ replicate n c) = s"
proof (cases "s = []")
  case True
  then show ?thesis by (simp only: append_Nil py_strip_only_glyphs)
next
  case False
  with assms have hd: "hd s \<noteq> c" and lst: "last s \<noteq> c" by simp_all
  have "dropWhile (\<lambda>x. x = c) (s @ replicate n c) = s @ replicate n c"
    using False hd by (cases s) simp_all
  then have a: "dropWhile (\<lambda>x. x = c) (replicate m c @ s @ replicate n c) = s @ replicate n c"
    by (simp only: dropWhile_replicate_append)
  have "rev s = [] \<or> hd (rev s) \<noteq> c" using lst False by (simp add: hd_rev)
  then have "dropWhile (\<lambda>x. x = c) (rev s) = rev s" by (rule dropWhile_no_head)
  then have b: "dropWhile (\<lambda>x. x = c) (rev (s @ replicate n c)) = rev s"
    by (simp only: rev_append rev_replicate dropWhile_replicate_append)
  show ?thesis by (simp only: py_strip_def a b rev_rev_ident)
qed

text \<open>The second \<open>strip\<close> finds nothing left to remove.\<close>

lemma py_strip_idem: "py_strip c (py_strip c s) = py_strip c s"
proof -
  define d where "d = dropWhile (\<lambda>x. x = c) s"
  define r where "r = rev (dropWhile (\<lambda>x. x = c) (rev d))"
  have d_hd: "d = [] \<or> hd d \<noteq> c"
    unfolding d_def using hd_dropWhile [of "\<lambda>x. x = c" s] by auto
  have split: "d = r @ rev (takeWhile (\<lambda>x. x = c) (rev d))"
    unfolding r_def by (metis rev_append rev_rev_ident takeWhile_dropWhile_id)
  have "r = [] \<or> hd r \<noteq> c"
  proof (cases "r = []")
    case True then show ?thesis by simp
  next
    case False
    then have "hd d = hd r" using split by (metis hd_append2)
    moreover have "d \<noteq> []" using False split by auto
    ultimately show ?thesis using d_hd by simp
  qed
  then have r1: "dropWhile (\<lambda>x. x = c) r = r" by (rule dropWhile_no_head)
  have r2: "dropWhile (\<lambda>x. x = c) (rev r) = rev r"
    unfolding r_def by (simp add: dropWhile_idem)
  have "py_strip c s = r" unfolding py_strip_def r_def d_def ..
  moreover have "py_strip c r = r" unfolding py_strip_def r1 r2 by simp
  ultimately show ?thesis by simp
qed

text \<open>
  Claim C5, as stated, says that a text enclosed in doubled quotation glyphs loses exactly
  one enclosing layer. The code removes both layers: \<open>""a""\<close> becomes \<open>a\<close>, not \<open>"a"\<close>.
\<close>

theorem normalize_text_doubled_counterexample:
  "normalize_text [quote_glyph, quote_glyph, CHR ''a'', quote_glyph, quote_glyph] = ''a'' \<and>
   normalize_text [quote_glyph, quote_glyph, CHR ''a'', quote_glyph, quote_glyph]
     \<noteq> [quote_glyph, CHR ''a'', quote_glyph]"
  by (simp add: normalize_text_def py_strip_def quote_glyph_def)

text \<open>
  Claim C5, amended: normalisation applies the same one-glyph \<open>strip\<close> twice in sequence;
  the first application already removes every leading and every trailing quotation glyph,
  however many layers there are, and the second changes nothing. A text made of \<open>m\<close>
  glyphs, a core that neither starts nor ends with the glyph, and \<open>n\<close> glyphs is
  normalised to its core.
\<close>

theorem normalize_text_strips_every_layer:
  "py_strip quote_glyph (py_strip quote_glyph t) = py_strip quote_glyph t \<and>
   (s = [] \<or> (hd s \<noteq> quote_glyph \<and> last s \<noteq> quote_glyph) \<longrightarrow>
      normalize_text (replicate m quote_glyph @ s @ replicate n quote_glyph) = s)"
proof (intro conjI impI)
  show "py_strip quote_glyph (py_strip quote_glyph t) = py_strip quote_glyph t"
    by (rule py_strip_idem)
next
  assume core: "s = [] \<or> (hd s \<noteq> quote_glyph \<and> last s \<noteq> quote_glyph)"
  have "normalize_text (replicate m quote_glyph @ s @ replicate n quote_glyph)
      = py_strip quote_glyph (replicate m quote_glyph @ s @ replicate n quote_glyph)"
    unfolding normalize_text_def by (rule py_strip_idem)
  also have "\<dots> = s"
    using core by (rule py_strip_layers)
  finally show "normalize_text (replicate m quote_glyph @ s @ replicate n quote_glyph) = s" .
qed

theorem normalize_text_strips_every_layer_witness:
  "hd ''abc'' \<noteq> quote_glyph \<and> last ''abc'' \<noteq> quote_glyph \<and>
   normalize_text (replicate 2 quote_glyph @ ''abc'' @ replicate 3 quote_glyph) = ''abc''"
proof -
  have core: "hd ''abc'' \<noteq> quote_glyph \<and> last ''abc'' \<noteq> quote_glyph"
    by (simp add: quote_glyph_def)
  with normalize_text_strips_every_layer [of "[]" "''abc''" 2 3] show ?thesis
    by blast
qed

section \<open>Properties of the field extraction\<close>

lemma extract_quote_None_iff:
  "extract_quote now qd = None \<longleftrightarrow> \<not> has_required_fields qd"
  by (auto simp: extract_quote_def has_required_fields_def Let_def split: option.splits)

lemma extract_quote_SomeD:
  assumes "extract_quote now qd = Some e"
  shows "\<exists>tn an. find_first qd ''span'' (Some ''text'') = Some tn \<and>
                 find_first qd ''small'' (Some ''author'') = Some an \<and>
                 texto e = normalize_text (get_text tn) \<and> autor e = get_text an"
  using assms by (auto simp: extract_quote_def Let_def split: option.splits)

lemma extract_quotes_mem:
  "e \<in> set (extract_quotes clock i divs) \<Longrightarrow>
     \<exists>qd\<in>set divs. \<exists>now. extract_quote now qd = Some e"
proof (induction divs arbitrary: i)
  case Nil
  then show ?case by simp
next
  case (Cons qd rest)
  show ?case
  proof (cases "extract_quote (clock i) qd")
    case None
    with Cons.prems have "e \<in> set (extract_quotes clock (Suc i) rest)" by simp
    from Cons.IH [OF this] show ?thesis by auto
  next
    case (Some q)
    with Cons.prems have "e = q \<or> e \<in> set (extract_quotes clock (Suc i) rest)" by auto
    then show ?thesis
    proof
      assume "e = q"
      with Some show ?thesis by auto
    next
      assume "e \<in> set (extract_quotes clock (Suc i) rest)"
      from Cons.IH [OF this] show ?thesis by auto
    qed
  qed
qed

lemma extract_quotes_length:
  "length (extract_quotes clock i divs) = length (filter has_required_fields divs)"
proof (induction divs arbitrary: i)
  case Nil
  show ?case by simp
next
  case (Cons qd rest)
  show ?case
  proof (cases "extract_quote (clock i) qd")
    case None
    then have "\<not> has_required_fields qd" by (simp add: extract_quote_None_iff)
    with None Cons.IH show ?thesis by simp
  next
    case (Some q)
    then have "has_required_fields qd" using extract_quote_None_iff [of "clock i" qd] by simp
    with Some Cons.IH show ?thesis by simp
  qed
qed

lemma extract_quotes_authors:
  "map autor (extract_quotes clock i divs) =
   map (\<lambda>qd. case find_first qd ''small'' (Some ''author'') of None \<Rightarrow> [] | Some a \<Rightarrow> get_text a)
     (filter has_required_fields divs)"
proof (induction divs arbitrary: i)
  case Nil
  show ?case by simp
next
  case (Cons qd rest)
  show ?case
  proof (cases "extract_quote (clock i) qd")
    case None
    then have "\<not> has_required_fields qd" by (simp add: extract_quote_None_iff)
    with None Cons.IH show ?thesis by simp
  next
    case (Some q)
    then have "has_required_fields qd" using extract_quote_None_iff [of "clock i" qd] by simp
    moreover from extract_quote_SomeD [OF Some]
    have "autor q = (case find_first qd ''small'' (Some ''author'') of None \<Rightarrow> [] | Some a \<Rightarrow> get_text a)"
      by auto
    ultimately show ?thesis using Some Cons.IH by simp
  qed
qed

lemma extract_quotes_texts:
  "map texto (extract_quotes clock i divs) =
   map (\<lambda>qd. case find_first qd ''span'' (Some ''text'') of
               None \<Rightarrow> [] | Some t \<Rightarrow> normalize_text (get_text t))
     (filter has_required_fields divs)"
proof (induction divs arbitrary: i)
  case Nil
  show ?case by simp
next
  case (Cons qd rest)
  show ?case
  proof (cases "extract_quote (clock i) qd")
    case None
    then have "\<not> has_required_fields qd" by (simp add: extract_quote_None_iff)
    with None Cons.IH show ?thesis by simp
  next
    case (Some q)
    then have "has_required_fields qd" using extract_quote_None_iff [of "clock i" qd] by simp
    moreover from extract_quote_SomeD [OF Some]
    have "texto q = (case find_first qd ''span'' (Some ''text'') of
                       None \<Rightarrow> [] | Some t \<Rightarrow> normalize_text (get_text t))"
      by auto
    ultimately show ?thesis using Some Cons.IH by simp
  qed
qed

text \<open>The result of the loop is the results of the containers, each processed on its own,
  in order, without the skipped ones.\<close>

lemma extract_quotes_independent:
  "map Some (extract_quotes clock i divs) =
   filter (\<lambda>r. r \<noteq> None) (map (\<lambda>(j, qd). extract_quote (clock j) qd) (enumerate i divs))"
proof (induction divs arbitrary: i)
  case Nil
  show ?case by simp
next
  case (Cons qd rest)
  show ?case
  proof (cases "extract_quote (clock i) qd")
    case None
    with Cons.IH [of "Suc i"] show ?thesis by simp
  next
    case (Some q)
    with Cons.IH [of "Suc i"] show ?thesis by simp
  qed
qed

text \<open>The extractor returns exactly when the parser accepts the document.\<close>

lemma parse_quote_page_Inr:
  "BeautifulSoup P html_content = Inr soup \<Longrightarrow>
     parse_quote_page P clock html_content = Inr (extract_quotes clock 0 (quote_divs soup))"
  by (simp add: parse_quote_page_def)

lemma parse_quote_page_InrD:
  "parse_quote_page P clock html_content = Inr qs \<Longrightarrow>
     \<exists>soup. BeautifulSoup P html_content = Inr soup \<and> qs = extract_quotes clock 0 (quote_divs soup)"
  by (auto simp: parse_quote_page_def split: sum.splits)

text \<open>
  Claim C3, as stated, says that every emitted entry has a non-empty text. A container
  whose text element is present but empty is emitted with the empty text.
\<close>

theorem parse_quote_page_empty_text_counterexample:
  "parse_quote_page (\<lambda>html. Inr empty_text_page) (\<lambda>i. ''2024-01-01 00:00:00'') ''<div class=quote>''
     = Inr [\<lparr>texto = [], autor = ''Jane Austen'', tags = [], num_tags = 0, num_palavras = 0,
             data_coleta = ''2024-01-01 00:00:00''\<rparr>]"
  by (simp add: parse_quote_page_def quote_divs_def BeautifulSoup_def find_all_def find_first_def
        extract_quote_def empty_text_page_def normalize_text_def py_strip_def py_split_def Let_def)

text \<open>
  Claim C3, amended: every emitted entry comes from a container that has both a text
  element and an author element, and its text is the normalised text of that element
  (empty when the element holds nothing but quotation glyphs); a container whose text
  element or author element is missing is dropped, not emitted with an empty text.
\<close>

theorem parse_quote_page_entry_text:
  "(parse_quote_page P clock html_content = Inr qs \<and> e \<in> set qs \<longrightarrow>
      (\<exists>soup. BeautifulSoup P html_content = Inr soup \<and>
         (\<exists>qd\<in>set (quote_divs soup). \<exists>tn an.
            find_first qd ''span'' (Some ''text'') = Some tn \<and>
            find_first qd ''small'' (Some ''author'') = Some an \<and>
            texto e = normalize_text (get_text tn)))) \<and>
   (find_first quote_div ''span'' (Some ''text'') = None \<or>
    find_first quote_div ''small'' (Some ''author'') = None \<longrightarrow>
      extract_quote now quote_div = None)"
proof (intro conjI impI)
  assume "parse_quote_page P clock html_content = Inr qs \<and> e \<in> set qs"
  then obtain soup where soup: "BeautifulSoup P html_content = Inr soup"
    and "e \<in> set (extract_quotes clock 0 (quote_divs soup))"
    by (auto dest: parse_quote_page_InrD)
  then obtain qd t where qd: "qd \<in> set (quote_divs soup)" and "extract_quote t qd = Some e"
    by (blast dest: extract_quotes_mem)
  from extract_quote_SomeD [OF this(2)] qd soup
  show "\<exists>soup. BeautifulSoup P html_content = Inr soup \<and>
         (\<exists>qd\<in>set (quote_divs soup). \<exists>tn an.
            find_first qd ''span'' (Some ''text'') = Some tn \<and>
            find_first qd ''small'' (Some ''author'') = Some an \<and>
            texto e = normalize_text (get_text tn))"
    by blast
next
  assume "find_first quote_div ''span'' (Some ''text'') = None \<or>
    find_first quote_div ''small'' (Some ''author'') = None"
  then show "extract_quote now quote_div = None"
    by (auto simp: extract_quote_def Let_def split: option.splits)
qed

theorem parse_quote_page_entry_text_witness:
  "(\<exists>tn an. find_first (hd empty_text_page) ''span'' (Some ''text'') = Some tn \<and>
       find_first (hd empty_text_page) ''small'' (Some ''author'') = Some an \<and>
       [] = normalize_text (get_text tn)) \<and>
   extract_quote ''2024-01-01 00:00:00'' (hd no_author_page) = None"
proof -
  let ?P = "\<lambda>html::string. Inr empty_text_page :: py_error + node list"
  let ?clock = "\<lambda>i::nat. ''2024-01-01 00:00:00''"
  let ?e = "\<lparr>texto = [], autor = ''Jane Austen'', tags = [], num_tags = 0, num_palavras = 0,
             data_coleta = ''2024-01-01 00:00:00''\<rparr>"
  have soup: "BeautifulSoup ?P ''<div class=quote>'' = Inr (Tag ''[document]'' [] [] empty_text_page)"
    by (simp add: BeautifulSoup_def)
  have divs: "quote_divs (Tag ''[document]'' [] [] empty_text_page) = empty_text_page"
    by (simp add: quote_divs_def find_all_def empty_text_page_def)
  have "parse_quote_page ?P ?clock ''<div class=quote>'' = Inr [?e]"
    by (simp add: parse_quote_page_def quote_divs_def BeautifulSoup_def find_all_def find_first_def
        extract_quote_def empty_text_page_def normalize_text_def py_strip_def py_split_def Let_def)
  then have mem: "parse_quote_page ?P ?clock ''<div class=quote>'' = Inr [?e] \<and> ?e \<in> set [?e]"
    by simp
  have missing: "find_first (hd no_author_page) ''span'' (Some ''text'') = None \<or>
    find_first (hd no_author_page) ''small'' (Some ''author'') = None"
    by (simp add: no_author_page_def find_first_def find_all_def)
  from parse_quote_page_entry_text [of ?P ?clock "''<div class=quote>''" "[?e]" ?e
      "hd no_author_page" "''2024-01-01 00:00:00''"] mem missing
  have "\<exists>soup. BeautifulSoup ?P ''<div class=quote>'' = Inr soup \<and>
         (\<exists>qd\<in>set (quote_divs soup). \<exists>tn an.
            find_first qd ''span'' (Some ''text'') = Some tn \<and>
            find_first qd ''small'' (Some ''author'') = Some an \<and>
            texto ?e = normalize_text (get_text tn))"
    and "extract_quote ''2024-01-01 00:00:00'' (hd no_author_page) = None"
    by blast+
  then show ?thesis unfolding soup by (simp add: divs) (simp add: empty_text_page_def)
qed

text \<open>
  Claim C4, as stated, says that on a page with a container that lacks a required field
  no entry with an empty author is ever produced. On a page whose first container has no
  author element and whose second container has an empty author element, the first is
  skipped and the second gives an entry with the empty author.
\<close>

theorem parse_quote_page_empty_author_counterexample:
  "find_first (hd mixed_page) ''small'' (Some ''author'') = None \<and>
   parse_quote_page (\<lambda>html. Inr mixed_page) (\<lambda>i. ''2024-01-01 00:00:00'')
       ''<div class=quote><span class=text>First</span></div>''
     = Inr [\<lparr>texto = ''To be'', autor = [], tags = [], num_tags = 0, num_palavras = 2,
             data_coleta = ''2024-01-01 00:00:00''\<rparr>]"
  by (simp add: parse_quote_page_def quote_divs_def BeautifulSoup_def find_all_def find_first_def
        extract_quote_def mixed_page_def normalize_text_def py_strip_def py_split_def
        is_space_def quote_glyph_def Let_def)

text \<open>
  Claim C4, amended: for every page document with its containers (a document the parser
  has turned into a tree), the extractor does not fail: it returns the entries. A
  container is skipped exactly when its text element or its author element is missing;
  the entries returned are those of the other containers, each processed on its own, in
  document order, so that a page with a container that lacks a required field yields
  fewer entries than containers. The text of an entry is the normalised text of the
  container's text element and its author is the text of the container's author
  element: a missing author element never gives an entry, while an author element with
  empty text gives an entry whose author is empty.
\<close>

theorem parse_quote_page_skips_malformed:
  "BeautifulSoup P html_content = Inr soup \<longrightarrow>
     (\<exists>qs. parse_quote_page P clock html_content = Inr qs \<and>
        map Some qs =
          filter (\<lambda>r. r \<noteq> None)
            (map (\<lambda>(j, qd). extract_quote (clock j) qd) (enumerate 0 (quote_divs soup))) \<and>
        (\<forall>j qd. extract_quote (clock j) qd = None \<longleftrightarrow> \<not> has_required_fields qd) \<and>
        length qs = length (filter has_required_fields (quote_divs soup)) \<and>
        map texto qs =
          map (\<lambda>qd. case find_first qd ''span'' (Some ''text'') of
                      None \<Rightarrow> [] | Some t \<Rightarrow> normalize_text (get_text t))
            (filter has_required_fields (quote_divs soup)) \<and>
        map autor qs =
          map (\<lambda>qd. case find_first qd ''small'' (Some ''author'') of
                      None \<Rightarrow> [] | Some a \<Rightarrow> get_text a)
            (filter has_required_fields (quote_divs soup)) \<and>
        ((\<exists>qd\<in>set (quote_divs soup). \<not> has_required_fields qd) \<longrightarrow>
           length qs < length (quote_divs soup)))"
proof
  assume soup: "BeautifulSoup P html_content = Inr soup"
  let ?qs = "extract_quotes clock 0 (quote_divs soup)"
  have ret: "parse_quote_page P clock html_content = Inr ?qs"
    using soup by (rule parse_quote_page_Inr)
  have indep: "map Some ?qs =
      filter (\<lambda>r. r \<noteq> None)
        (map (\<lambda>(j, qd). extract_quote (clock j) qd) (enumerate 0 (quote_divs soup)))"
    by (rule extract_quotes_independent)
  have skip: "\<forall>j qd. extract_quote (clock j) qd = None \<longleftrightarrow> \<not> has_required_fields qd"
    by (simp add: extract_quote_None_iff)
  have len: "length ?qs = length (filter has_required_fields (quote_divs soup))"
    by (rule extract_quotes_length)
  have texts: "map texto ?qs =
      map (\<lambda>qd. case find_first qd ''span'' (Some ''text'') of
                  None \<Rightarrow> [] | Some t \<Rightarrow> normalize_text (get_text t))
        (filter has_required_fields (quote_divs soup))"
    by (rule extract_quotes_texts)
  have aut: "map autor ?qs =
      map (\<lambda>qd. case find_first qd ''small'' (Some ''author'') of
                  None \<Rightarrow> [] | Some a \<Rightarrow> get_text a)
        (filter has_required_fields (quote_divs soup))"
    by (rule extract_quotes_authors)
  have fewer: "(\<exists>qd\<in>set (quote_divs soup). \<not> has_required_fields qd) \<longrightarrow>
      length ?qs < length (quote_divs soup)"
  proof
    assume "\<exists>qd\<in>set (quote_divs soup). \<not> has_required_fields qd"
    then obtain qd where "qd \<in> set (quote_divs soup)" "\<not> has_required_fields qd" by blast
    then have "length (filter has_required_fields (quote_divs soup)) < length (quote_divs soup)"
      by (rule length_filter_less)
    with len show "length ?qs < length (quote_divs soup)" by simp
  qed
  from ret indep skip len texts aut fewer
  show "\<exists>qs. parse_quote_page P clock html_content = Inr qs \<and>
        map Some qs =
          filter (\<lambda>r. r \<noteq> None)
            (map (\<lambda>(j, qd). extract_quote (clock j) qd) (enumerate 0 (quote_divs soup))) \<and>
        (\<forall>j qd. extract_quote (clock j) qd = None \<longleftrightarrow> \<not> has_required_fields qd) \<and>
        length qs = length (filter has_required_fields (quote_divs soup)) \<and>
        map texto qs =
          map (\<lambda>qd. case find_first qd ''span'' (Some ''text'') of
                      None \<Rightarrow> [] | Some t \<Rightarrow> normalize_text (get_text t))
            (filter has_required_fields (quote_divs soup)) \<and>
        map autor qs =
          map (\<lambda>qd. case find_first qd ''small'' (Some ''author'') of
                      None \<Rightarrow> [] | Some a \<Rightarrow> get_text a)
            (filter has_required_fields (quote_divs soup)) \<and>
        ((\<exists>qd\<in>set (quote_divs soup). \<not> has_required_fields qd) \<longrightarrow>
           length qs < length (quote_divs soup))"
    by (intro exI [of _ ?qs] conjI)
qed

theorem parse_quote_page_skips_malformed_witness:
  "\<not> has_required_fields (hd no_author_page) \<and>
   (\<exists>qs. parse_quote_page (\<lambda>html. Inr no_author_page) (\<lambda>i. ''2024-01-01 00:00:00'')
            ''<div class=quote>'' = Inr qs \<and>
          map texto qs = [''Second''] \<and> map autor qs = [''Jane Austen''] \<and> length qs < 2)"
proof -
  let ?P = "\<lambda>html::string. Inr no_author_page :: py_error + node list"
  let ?clock = "\<lambda>i::nat. ''2024-01-01 00:00:00''"
  let ?soup = "Tag ''[document]'' [] [] no_author_page"
  have soup: "BeautifulSoup ?P ''<div class=quote>'' = Inr ?soup"
    by (simp add: BeautifulSoup_def)
  have divs: "quote_divs ?soup = no_author_page"
    by (simp add: quote_divs_def find_all_def no_author_page_def)
  have bad: "\<not> has_required_fields (hd no_author_page)"
    by (simp add: has_required_fields_def no_author_page_def find_first_def find_all_def)
  have good: "has_required_fields (hd (tl no_author_page))"
    by (simp add: has_required_fields_def no_author_page_def find_first_def find_all_def)
  have ex: "\<exists>qd\<in>set (quote_divs ?soup). \<not> has_required_fields qd"
    unfolding divs using bad by (simp add: no_author_page_def)
  have flt: "filter has_required_fields no_author_page = tl no_author_page"
    using bad good by (simp add: no_author_page_def)
  have t: "map (\<lambda>qd. case find_first qd ''span'' (Some ''text'') of
                      None \<Rightarrow> [] | Some t \<Rightarrow> normalize_text (get_text t)) (tl no_author_page)
      = [''Second'']"
    by (simp add: no_author_page_def find_first_def find_all_def normalize_text_def py_strip_def
          quote_glyph_def)
  have a: "map (\<lambda>qd. case find_first qd ''small'' (Some ''author'') of
                      None \<Rightarrow> [] | Some a \<Rightarrow> get_text a) (tl no_author_page)
      = [''Jane Austen'']"
    by (simp add: no_author_page_def find_first_def find_all_def)
  have n: "length (quote_divs ?soup) = 2"
    unfolding divs by (simp add: no_author_page_def)
  from parse_quote_page_skips_malformed [of ?P "''<div class=quote>''" ?soup ?clock] soup
  obtain qs where qs: "parse_quote_page ?P ?clock ''<div class=quote>'' = Inr qs"
    and "map texto qs =
          map (\<lambda>qd. case find_first qd ''span'' (Some ''text'') of
                      None \<Rightarrow> [] | Some t \<Rightarrow> normalize_text (get_text t))
            (filter has_required_fields (quote_divs ?soup))"
    and "map autor qs =
          map (\<lambda>qd. case find_first qd ''small'' (Some ''author'') of
                      None \<Rightarrow> [] | Some a \<Rightarrow> get_text a)
            (filter has_required_fields (quote_divs ?soup))"
    and "(\<exists>qd\<in>set (quote_divs ?soup). \<not> has_required_fields qd) \<longrightarrow>
           length qs < length (quote_divs ?soup)"
    by blast
  then have r: "map texto qs = [''Second'']" "map autor qs = [''Jane Austen'']" "length qs < 2"
    using ex n by (simp_all only: divs flt t a)
  show ?thesis
    by (intro conjI exI [of _ qs]) (rule bad qs r)+
qed

section \<open>Properties of the page fetcher\<close>




section \<open>Properties of the pagination resolver\<close>

text \<open>
  Claim C7: the resolver returns nothing, rather than failing, when the \<open>next\<close> marker is
  present without a usable link target. On a marker whose link has no \<open>href\<close> attribute
  the code raises \<open>KeyError\<close>.
\<close>

theorem get_next_page_url_missing_href_raises:
  "get_next_page_url (\<lambda>html. Inr next_without_href) ''http://quotes.toscrape.com''
     ''<ul class=pager><li class=next><a>Next</a></li></ul>'' = Inl KeyError"
  by (simp add: get_next_page_url_def BeautifulSoup_def find_first_def find_all_def next_without_href_def)

section \<open>Properties of the crawl\<close>

lemma fetched_append: "fetched (xs @ ys) = fetched xs @ fetched ys"
  by (induction xs rule: fetched.induct) simp_all

lemma loop_body_Break:
  assumes "loop_body P net clock base u st = Break st'"
  shows "st' = st\<lparr>events := events st @ [Fetch u]\<rparr>"
  using assms by (auto simp: loop_body_def Let_def split: option.splits if_splits sum.splits)

lemma loop_body_Raise:
  assumes "loop_body P net clock base u st = Raise e st'"
  shows "fetched (events st') = fetched (events st) @ [u]"
  using assms by (auto simp: loop_body_def Let_def fetched_append split: option.splits if_splits sum.splits)

lemma loop_body_Continue:
  assumes "loop_body P net clock base u st = Continue st'"
  shows "fetched (events st') = fetched (events st) @ [u] \<and> pages_scraped st' = Suc (pages_scraped st)"
  using assms by (auto simp: loop_body_def Let_def fetched_append split: option.splits if_splits sum.splits)

lemma scrape_loop_done:
  "current_url st = None \<or> current_url st = Some [] \<or> \<not> int (pages_scraped st) < max_pages
     \<Longrightarrow> scrape_loop P net clock base max_pages st = (st, None)"
  by (subst scrape_loop.simps) (auto split: option.splits)

lemma scrape_loop_fetch_bound:
  "length (fetched (events (fst (scrape_loop P net clock base max_pages st))))
     \<le> length (fetched (events st)) + nat (max_pages - int (pages_scraped st))"
proof (induction P net clock base max_pages st rule: scrape_loop.induct)
  case (1 P net clock base max_pages st)
  show ?case
  proof (cases "current_url st")
    case None
    then show ?thesis by (simp add: scrape_loop_done)
  next
    case (Some u)
    show ?thesis
    proof (cases "u \<noteq> [] \<and> int (pages_scraped st) < max_pages")
      case False
      with Some have "current_url st = Some [] \<or> \<not> int (pages_scraped st) < max_pages" by auto
      then show ?thesis by (simp add: scrape_loop_done)
    next
      case True
      then have pos: "nat (max_pages - int (pages_scraped st))
          = Suc (nat (max_pages - int (Suc (pages_scraped st))))" by linarith
      show ?thesis
      proof (cases "loop_body P net clock base u st")
        case (Break st')
        from loop_body_Break [OF this] Some True Break show ?thesis
          by (subst scrape_loop.simps) (simp add: fetched_append pos)
      next
        case (Raise e st')
        from loop_body_Raise [OF this] Some True Raise show ?thesis
          by (subst scrape_loop.simps) (simp add: pos)
      next
        case (Continue st')
        from loop_body_Continue [OF this]
        have f: "fetched (events st') = fetched (events st) @ [u]"
          and p: "pages_scraped st' = Suc (pages_scraped st)" by simp_all
        have "scrape_loop P net clock base max_pages st = scrape_loop P net clock base max_pages st'"
          using Some True Continue by (subst scrape_loop.simps) simp
        moreover have "length (fetched (events (fst (scrape_loop P net clock base max_pages st'))))
           \<le> length (fetched (events st')) + nat (max_pages - int (pages_scraped st'))"
          using "1.IH" [OF Some True Continue] .
        ultimately show ?thesis using f p pos by simp
      qed
    qed
  qed
qed

text \<open>A document on which the resolver returns is one the parser accepts, so the
  extraction returns on it too.\<close>

lemma resolver_accepts:
  assumes "get_next_page_url P base b = Inr nxt"
  shows "\<exists>q. parse_quote_page P clock b = Inr q"
  using assms by (auto simp: get_next_page_url_def parse_quote_page_def split: sum.splits)

lemma empty_document:
  assumes "P [] = Inr []"
  shows "parse_quote_page P clock [] = Inr []" and "get_next_page_url P base [] = Inr None"
  using assms
  by (simp_all add: parse_quote_page_def quote_divs_def get_next_page_url_def BeautifulSoup_def
        find_first_def find_all_def)

lemma loop_body_page:
  assumes "get_page_content (net (pages_scraped st) u) = Inr (Some b)" and "b \<noteq> []"
    and "get_next_page_url P base b = Inr nxt"
  shows "loop_body P net clock base u st =
     Continue (st\<lparr>quotes_data := quotes_data st @
                    (case parse_quote_page P (clock (pages_scraped st)) b of
                       Inl e \<Rightarrow> [] | Inr q \<Rightarrow> q),
                  current_url := nxt,
                  pages_scraped := Suc (pages_scraped st),
                  events := events st @ [Fetch u] @ (if truthy nxt then [Sleep 1] else [])\<rparr>)"
proof -
  from resolver_accepts [OF assms(3)] obtain q
    where "parse_quote_page P (clock (pages_scraped st)) b = Inr q" by blast
  with assms show ?thesis by (simp add: loop_body_def Let_def)
qed

lemma loop_body_empty:
  assumes "get_page_content (net (pages_scraped st) u) = Inr (Some [])"
  shows "loop_body P net clock base u st = Break (st\<lparr>events := events st @ [Fetch u]\<rparr>)"
  using assms by (simp add: loop_body_def Let_def)

lemma loop_body_failed:
  assumes "get_page_content (net (pages_scraped st) u) = Inr None"
  shows "loop_body P net clock base u st = Break (st\<lparr>events := events st @ [Fetch u]\<rparr>)"
  using assms by (simp add: loop_body_def Let_def)

text \<open>A run over a chain of pages, from any state of the loop: page \<open>i\<close> of the chain is
  fetched at \<open>us ! i\<close> with body \<open>bs ! i\<close>, each page but the last links to the next one.\<close>

lemma scrape_loop_chain:
  assumes empty: "P [] = Inr []"
  shows "\<lbrakk>length us = length bs; bs \<noteq> [];
          int (pages_scraped st + length bs) \<le> max_pages;
          current_url st = Some (hd us); hd us \<noteq> [];
          \<forall>i<length bs. get_page_content (net (pages_scraped st + i) (us ! i)) = Inr (Some (bs ! i));
          \<forall>i. Suc i < length bs \<longrightarrow>
             get_next_page_url P base (bs ! i) = Inr (Some (us ! Suc i)) \<and> us ! Suc i \<noteq> [];
          get_next_page_url P base (last bs) = Inr None\<rbrakk>
     \<Longrightarrow> snd (scrape_loop P net clock base max_pages st) = None \<and>
         fetched (events (fst (scrape_loop P net clock base max_pages st)))
           = fetched (events st) @ us \<and>
         quotes_data (fst (scrape_loop P net clock base max_pages st))
           = quotes_data st @
             concat (map (\<lambda>i. case parse_quote_page P (clock (pages_scraped st + i)) (bs ! i) of
                                Inl e \<Rightarrow> [] | Inr q \<Rightarrow> q)
                       [0..<length bs])"
proof (induction bs arbitrary: us st)
  case Nil
  then show ?case by simp
next
  case (Cons b bs')
  let ?page = "\<lambda>n c. case parse_quote_page P (clock n) c of Inl e \<Rightarrow> [] | Inr q \<Rightarrow> q"
  from Cons.prems(1) obtain u us' where us: "us = u # us'" and len: "length us' = length bs'"
    by (cases us) auto
  have cur: "current_url st = Some u" and u: "u \<noteq> []" using Cons.prems(4,5) us by simp_all
  have lt: "int (pages_scraped st) < max_pages" using Cons.prems(3) by simp
  have fetch: "get_page_content (net (pages_scraped st) u) = Inr (Some b)"
    using Cons.prems(6) us by force
  have unfold: "scrape_loop P net clock base max_pages st =
      (case loop_body P net clock base u st of
         Break st' \<Rightarrow> (st', None)
       | Raise e st' \<Rightarrow> (st', Some e)
       | Continue st' \<Rightarrow> scrape_loop P net clock base max_pages st')"
    using cur u lt by (subst scrape_loop.simps) simp
  show ?case
  proof (cases bs')
    case Nil
    then have us': "us' = []" using len by simp
    have last: "get_next_page_url P base b = Inr None" using Cons.prems(8) Nil by simp
    show ?thesis
    proof (cases "b = []")
      case True
      then have "loop_body P net clock base u st = Break (st\<lparr>events := events st @ [Fetch u]\<rparr>)"
        using fetch by (simp add: loop_body_empty)
      then show ?thesis
        using unfold Nil us us' True empty_document(1) [of P, OF empty]
        by (simp add: fetched_append)
    next
      case False
      let ?st' = "st\<lparr>quotes_data := quotes_data st @ ?page (pages_scraped st) b,
                  current_url := None,
                  pages_scraped := Suc (pages_scraped st),
                  events := events st @ [Fetch u] @ (if truthy None then [Sleep 1] else [])\<rparr>"
      have "loop_body P net clock base u st = Continue ?st'"
        using fetch False last by (rule loop_body_page)
      then have "scrape_loop P net clock base max_pages st = scrape_loop P net clock base max_pages ?st'"
        using unfold by simp
      also have "\<dots> = (?st', None)" by (rule scrape_loop_done) simp
      finally show ?thesis using Nil us us' by (simp add: fetched_append)
    qed
  next
    case (Cons b' bs'')
    have nxt: "get_next_page_url P base b = Inr (Some (us ! Suc 0))" and ne: "us ! Suc 0 \<noteq> []"
      using Cons.prems(7) Cons by force+
    have b: "b \<noteq> []"
    proof
      assume "b = []"
      with nxt empty_document(2) [of P base, OF empty] show False by simp
    qed
    have hd': "us ! Suc 0 = hd us'" using us len Cons by (cases us') simp_all
    let ?st' = "st\<lparr>quotes_data := quotes_data st @ ?page (pages_scraped st) b,
                  current_url := Some (us ! Suc 0),
                  pages_scraped := Suc (pages_scraped st),
                  events := events st @ [Fetch u] @ (if truthy (Some (us ! Suc 0)) then [Sleep 1] else [])\<rparr>"
    have "loop_body P net clock base u st = Continue ?st'"
      using fetch b nxt by (rule loop_body_page)
    then have step: "scrape_loop P net clock base max_pages st = scrape_loop P net clock base max_pages ?st'"
      using unfold by simp
    have IH: "snd (scrape_loop P net clock base max_pages ?st') = None \<and>
         fetched (events (fst (scrape_loop P net clock base max_pages ?st')))
           = fetched (events ?st') @ us' \<and>
         quotes_data (fst (scrape_loop P net clock base max_pages ?st'))
           = quotes_data ?st' @
             concat (map (\<lambda>i. ?page (pages_scraped ?st' + i) (bs' ! i)) [0..<length bs'])"
    proof (rule Cons.IH)
      show "length us' = length bs'" by (rule len)
      show "bs' \<noteq> []" using Cons by simp
      show "int (pages_scraped ?st' + length bs') \<le> max_pages" using Cons.prems(3) by simp
      show "current_url ?st' = Some (hd us')" using hd' by simp
      show "hd us' \<noteq> []" using hd' ne by simp
      show "\<forall>i<length bs'. get_page_content (net (pages_scraped ?st' + i) (us' ! i)) = Inr (Some (bs' ! i))"
      proof (intro allI impI)
        fix i assume "i < length bs'"
        then have "Suc i < length (b # bs')" by simp
        with Cons.prems(6)
        have "get_page_content (net (pages_scraped st + Suc i) (us ! Suc i)) = Inr (Some ((b # bs') ! Suc i))"
          by blast
        then show "get_page_content (net (pages_scraped ?st' + i) (us' ! i)) = Inr (Some (bs' ! i))"
          using us by simp
      qed
      show "\<forall>i. Suc i < length bs' \<longrightarrow>
             get_next_page_url P base (bs' ! i) = Inr (Some (us' ! Suc i)) \<and> us' ! Suc i \<noteq> []"
      proof (intro allI impI)
        fix i assume "Suc i < length bs'"
        then have "Suc (Suc i) < length (b # bs')" by simp
        with Cons.prems(7)
        have "get_next_page_url P base ((b # bs') ! Suc i) = Inr (Some (us ! Suc (Suc i)))
            \<and> us ! Suc (Suc i) \<noteq> []"
          by blast
        then show "get_next_page_url P base (bs' ! i) = Inr (Some (us' ! Suc i)) \<and> us' ! Suc i \<noteq> []"
          using us by simp
      qed
      show "get_next_page_url P base (last bs') = Inr None"
        using Cons.prems(8) Cons by simp
    qed
    have q: "concat (map (\<lambda>i. ?page (pages_scraped st + i) ((b # bs') ! i)) [0..<length (b # bs')])
        = ?page (pages_scraped st) b @
          concat (map (\<lambda>i. ?page (Suc (pages_scraped st) + i) (bs' ! i)) [0..<length bs'])"
    proof -
      have "map (\<lambda>i. ?page (pages_scraped st + i) ((b # bs') ! i)) [0..<Suc (length bs')]
         = ?page (pages_scraped st + 0) ((b # bs') ! 0) #
           map (\<lambda>i. ?page (pages_scraped st + Suc i) ((b # bs') ! Suc i)) [0..<length bs']"
        by (simp add: upt_conv_Cons map_Suc_upt [symmetric] comp_def del: upt_Suc)
      then show ?thesis by simp
    qed
    show ?thesis
      unfolding step using IH us q by (simp add: fetched_append)
  qed
qed

text \<open>
  Claim C6: the pacing delay is never performed after the final fetch. With
  \<open>max_pages = 1\<close> and a first page that links to a second one, the code fetches page 1,
  sleeps, and leaves the loop without another request.
\<close>

theorem scrape_all_pages_sleeps_after_last_fetch:
  "events (fst (scrape_all_pages (\<lambda>html. Inr page_with_next) (\<lambda>n url. Response 200 ''<li class=next>'')
      (\<lambda>n i. ''2024-01-01 00:00:00'') (CitationScraper ''http://quotes.toscrape.com'') 1))
   = [Fetch ''http://quotes.toscrape.com/page/1/'', Sleep 1]"
  by (simp add: scrape_all_pages_def CitationScraper_def scrape_loop.simps loop_body_def
        get_page_content_def raise_for_status_def parse_quote_page_def quote_divs_def
        get_next_page_url_def BeautifulSoup_def find_first_def find_all_def page_with_next_def Let_def)

text \<open>
  Claim C2: with \<open>max_pages = 0\<close> or \<open>max_pages = 1\<close> the crawl requests at most one page,
  whatever the seed URL, the documents and their pagination links, and also when the
  crawl ends with an exception.
\<close>

theorem scrape_all_pages_at_most_one_fetch:
  "max_pages = 0 \<or> max_pages = 1 \<Longrightarrow>
     length (fetched (events (fst (scrape_all_pages P net clock self max_pages)))) \<le> 1"
proof -
  assume "max_pages = 0 \<or> max_pages = 1"
  then have "nat max_pages \<le> 1" by auto
  moreover have "length (fetched (events (fst (scrape_all_pages P net clock self max_pages))))
      \<le> 0 + nat (max_pages - 0)"
    unfolding scrape_all_pages_def
    using scrape_loop_fetch_bound [of P net clock "base_url self" max_pages
        "\<lparr>quotes_data = self_quotes_data self, current_url = Some (base_url self @ ''/page/1/''),
           pages_scraped = 0, events = []\<rparr>"]
    by simp
  ultimately show ?thesis by simp
qed

theorem scrape_all_pages_at_most_one_fetch_witness:
  "length (fetched (events (fst (scrape_all_pages (\<lambda>html. Inr page_with_next)
      (\<lambda>n url. Response 200 ''<li class=next>'') (\<lambda>n i. ''2024-01-01 00:00:00'')
      (CitationScraper ''http://quotes.toscrape.com'') 1)))) \<le> 1 \<and>
   length (fetched (events (fst (scrape_all_pages (\<lambda>html. Inr page_with_next)
      (\<lambda>n url. Response 200 ''<li class=next>'') (\<lambda>n i. ''2024-01-01 00:00:00'')
      (CitationScraper ''http://quotes.toscrape.com'') 0)))) \<le> 1"
  using scrape_all_pages_at_most_one_fetch [of 1 "\<lambda>html. Inr page_with_next"
      "\<lambda>n url. Response 200 ''<li class=next>''" "\<lambda>n i. ''2024-01-01 00:00:00''"
      "CitationScraper ''http://quotes.toscrape.com''"]
    scrape_all_pages_at_most_one_fetch [of 0 "\<lambda>html. Inr page_with_next"
      "\<lambda>n url. Response 200 ''<li class=next>''" "\<lambda>n i. ''2024-01-01 00:00:00''"
      "CitationScraper ''http://quotes.toscrape.com''"]
  by simp

text \<open>
  Claim C10: a request that succeeds at the HTTP level (a 2xx status) with an empty body
  is treated exactly like a failed request: from any state of the loop, the loop ends at
  once after that request, without an exception, with the same final state as under a
  network where the request fails, and the entries accumulated so far are kept.
\<close>

theorem scrape_loop_empty_body_like_failure:
  assumes "current_url st = Some u" and "u \<noteq> []" and "int (pages_scraped st) < max_pages"
    and "net (pages_scraped st) u = Response status []" and "200 \<le> status \<and> status < 300"
    and "get_page_content (net' (pages_scraped st) u) = Inr None"
  shows "scrape_loop P net clock base max_pages st = (st\<lparr>events := events st @ [Fetch u]\<rparr>, None) \<and>
         scrape_loop P net clock base max_pages st = scrape_loop P net' clock base max_pages st \<and>
         quotes_data (fst (scrape_loop P net clock base max_pages st)) = quotes_data st"
proof -
  have "get_page_content (net (pages_scraped st) u) = Inr (Some [])"
    using assms(4,5) by (simp add: get_page_content_def raise_for_status_def)
  then have a: "loop_body P net clock base u st = Break (st\<lparr>events := events st @ [Fetch u]\<rparr>)"
    by (rule loop_body_empty)
  have b: "loop_body P net' clock base u st = Break (st\<lparr>events := events st @ [Fetch u]\<rparr>)"
    using assms(6) by (rule loop_body_failed)
  have r: "scrape_loop P net clock base max_pages st = (st\<lparr>events := events st @ [Fetch u]\<rparr>, None)"
    using assms(1-3) a by (subst scrape_loop.simps) simp
  have r': "scrape_loop P net' clock base max_pages st = (st\<lparr>events := events st @ [Fetch u]\<rparr>, None)"
    using assms(1-3) b by (subst scrape_loop.simps) simp
  show ?thesis using r r' by simp
qed

theorem scrape_loop_empty_body_like_failure_witness:
  "fst (scrape_loop two_page_parser (\<lambda>n url. Response 200 []) fixed_clock ''http://q'' 5 after_first_page)
     = after_first_page\<lparr>events := [Fetch ''http://q/page/1/'', Sleep 1, Fetch ''http://q/page/2/'']\<rparr> \<and>
   scrape_loop two_page_parser (\<lambda>n url. Response 200 []) fixed_clock ''http://q'' 5 after_first_page
     = scrape_loop two_page_parser (\<lambda>n url. RequestException Timeout) fixed_clock ''http://q'' 5 after_first_page \<and>
   map texto (quotes_data (fst (scrape_loop two_page_parser (\<lambda>n url. Response 200 []) fixed_clock
       ''http://q'' 5 after_first_page))) = [''First'']"
proof -
  let ?ok = "\<lambda>(n::nat) (url::string). Response 200 []"
  let ?ko = "\<lambda>(n::nat) (url::string). RequestException Timeout"
  have 1: "current_url after_first_page = Some ''http://q/page/2/''"
    and 2: "''http://q/page/2/'' \<noteq> []"
    and 3: "int (pages_scraped after_first_page) < 5"
    and 4: "?ok (pages_scraped after_first_page) ''http://q/page/2/'' = Response 200 []"
    and 5: "200 \<le> (200::nat) \<and> (200::nat) < 300"
    and 6: "get_page_content (?ko (pages_scraped after_first_page) ''http://q/page/2/'') = Inr None"
    by (simp_all add: after_first_page_def get_page_content_def)
  have ev: "events after_first_page @ [Fetch ''http://q/page/2/'']
      = [Fetch ''http://q/page/1/'', Sleep 1, Fetch ''http://q/page/2/'']"
    and qs: "map texto (quotes_data after_first_page) = [''First'']"
    by (simp_all add: after_first_page_def)
  note r = scrape_loop_empty_body_like_failure [OF 1 2 3 4 5 6, of two_page_parser fixed_clock "''http://q''"]
  from r have a: "fst (scrape_loop two_page_parser ?ok fixed_clock ''http://q'' 5 after_first_page)
      = after_first_page\<lparr>events := events after_first_page @ [Fetch ''http://q/page/2/'']\<rparr>"
    by (simp only: fst_conv)
  from r have b: "scrape_loop two_page_parser ?ok fixed_clock ''http://q'' 5 after_first_page
     = scrape_loop two_page_parser ?ko fixed_clock ''http://q'' 5 after_first_page"
    by (rule conjunct1 [OF conjunct2])
  from r have c: "quotes_data (fst (scrape_loop two_page_parser ?ok fixed_clock ''http://q'' 5 after_first_page))
      = quotes_data after_first_page"
    by (rule conjunct2 [OF conjunct2])
  show ?thesis
  proof (intro conjI)
    show "fst (scrape_loop two_page_parser ?ok fixed_clock ''http://q'' 5 after_first_page)
     = after_first_page\<lparr>events := [Fetch ''http://q/page/1/'', Sleep 1, Fetch ''http://q/page/2/'']\<rparr>"
      unfolding a ev ..
    show "scrape_loop two_page_parser ?ok fixed_clock ''http://q'' 5 after_first_page
     = scrape_loop two_page_parser ?ko fixed_clock ''http://q'' 5 after_first_page"
      by (rule b)
    show "map texto (quotes_data (fst (scrape_loop two_page_parser ?ok fixed_clock
       ''http://q'' 5 after_first_page))) = [''First'']"
      unfolding c by (rule qs)
  qed
qed

text \<open>
  Claim C1: for a crawl of \<open>k \<le> max_pages\<close> pages in which every request succeeds (request
  \<open>i\<close> goes to \<open>us ! i\<close> and gives the body \<open>bs ! i\<close>), each page but the last resolves to
  the next URL and the resolver returns no next-page reference on page \<open>k\<close>, the crawl
  returns normally, has requested exactly the \<open>k\<close> URLs in order, and returns the entries
  extracted from pages 1 to \<open>k\<close> (the extraction returns on each of them), concatenated
  in order. The parser gives no node for the empty document.
\<close>

theorem scrape_all_pages_until_last_page:
  assumes "P [] = Inr []"
    and "length us = k" and "length bs = k" and "0 < k" and "int k \<le> max_pages"
    and "us ! 0 = base_url self @ ''/page/1/''"
    and "\<forall>i<k. get_page_content (net i (us ! i)) = Inr (Some (bs ! i))"
    and "\<forall>i. Suc i < k \<longrightarrow>
           get_next_page_url P (base_url self) (bs ! i) = Inr (Some (us ! Suc i)) \<and> us ! Suc i \<noteq> []"
    and "get_next_page_url P (base_url self) (bs ! (k - 1)) = Inr None"
  shows "snd (scrape_all_pages P net clock self max_pages) = None \<and>
         fetched (events (fst (scrape_all_pages P net clock self max_pages))) = us \<and>
         length (fetched (events (fst (scrape_all_pages P net clock self max_pages)))) = k \<and>
         (\<exists>qs. length qs = k \<and>
               (\<forall>i<k. parse_quote_page P (clock i) (bs ! i) = Inr (qs ! i)) \<and>
               quotes_data (fst (scrape_all_pages P net clock self max_pages))
                 = self_quotes_data self @ concat qs)"
proof -
  let ?st = "\<lparr>quotes_data = self_quotes_data self,
              current_url = Some (base_url self @ ''/page/1/''),
              pages_scraped = 0, events = []\<rparr>"
  let ?page = "\<lambda>i. case parse_quote_page P (clock i) (bs ! i) of Inl e \<Rightarrow> [] | Inr q \<Rightarrow> q"
  let ?qs = "map ?page [0..<k]"
  have bs: "bs \<noteq> []" and us: "us \<noteq> []" using assms(2-4) by auto
  have hd: "hd us = base_url self @ ''/page/1/''" using assms(6) us by (simp add: hd_conv_nth)
  have last: "last bs = bs ! (k - 1)" using bs assms(3) by (simp add: last_conv_nth)
  have run: "snd (scrape_loop P net clock (base_url self) max_pages ?st) = None \<and>
         fetched (events (fst (scrape_loop P net clock (base_url self) max_pages ?st)))
           = fetched (events ?st) @ us \<and>
         quotes_data (fst (scrape_loop P net clock (base_url self) max_pages ?st))
           = quotes_data ?st @
             concat (map (\<lambda>i. case parse_quote_page P (clock (pages_scraped ?st + i)) (bs ! i) of
                                Inl e \<Rightarrow> [] | Inr q \<Rightarrow> q)
                       [0..<length bs])"
  proof (rule scrape_loop_chain [of P])
    show "P [] = Inr []" by (rule assms(1))
    show "length us = length bs" using assms(2,3) by simp
    show "bs \<noteq> []" by (rule bs)
    show "int (pages_scraped ?st + length bs) \<le> max_pages" using assms(3,5) by simp
    show "current_url ?st = Some (hd us)" using hd by simp
    show "hd us \<noteq> []" using hd by simp
    show "\<forall>i<length bs. get_page_content (net (pages_scraped ?st + i) (us ! i)) = Inr (Some (bs ! i))"
      using assms(3,7) by simp
    show "\<forall>i. Suc i < length bs \<longrightarrow>
           get_next_page_url P (base_url self) (bs ! i) = Inr (Some (us ! Suc i)) \<and> us ! Suc i \<noteq> []"
      using assms(3,8) by simp
    show "get_next_page_url P (base_url self) (last bs) = Inr None"
      using assms(9) last by simp
  qed
  have accepted: "\<forall>i<k. parse_quote_page P (clock i) (bs ! i) = Inr (?qs ! i)"
  proof (intro allI impI)
    fix i assume i: "i < k"
    have "\<exists>nxt. get_next_page_url P (base_url self) (bs ! i) = Inr nxt"
    proof (cases "Suc i < k")
      case True
      with assms(8) show ?thesis by blast
    next
      case False
      with i have "i = k - 1" by simp
      with assms(9) show ?thesis by blast
    qed
    then obtain q where "parse_quote_page P (clock i) (bs ! i) = Inr q"
      using resolver_accepts by blast
    then show "parse_quote_page P (clock i) (bs ! i) = Inr (?qs ! i)"
      using i by simp
  qed
  have "quotes_data (fst (scrape_all_pages P net clock self max_pages))
      = self_quotes_data self @ concat ?qs"
    unfolding scrape_all_pages_def using run assms(3) by simp
  with accepted have "\<exists>qs. length qs = k \<and>
               (\<forall>i<k. parse_quote_page P (clock i) (bs ! i) = Inr (qs ! i)) \<and>
               quotes_data (fst (scrape_all_pages P net clock self max_pages))
                 = self_quotes_data self @ concat qs"
    by (intro exI [of _ ?qs]) simp
  moreover have "snd (scrape_all_pages P net clock self max_pages) = None"
    and "fetched (events (fst (scrape_all_pages P net clock self max_pages))) = us"
    unfolding scrape_all_pages_def using run by simp_all
  ultimately show ?thesis using assms(2) by simp
qed

theorem scrape_all_pages_until_last_page_witness:
  "fetched (events (fst (scrape_all_pages two_page_parser two_page_site fixed_clock
      (CitationScraper ''http://q'') 5))) = [''http://q/page/1/'', ''http://q/page/2/''] \<and>
   map texto (quotes_data (fst (scrape_all_pages two_page_parser two_page_site fixed_clock
      (CitationScraper ''http://q'') 5))) = [''First'', ''Second'']"
proof -
  let ?us = "[''http://q/page/1/'', ''http://q/page/2/'']"
  let ?bs = "[''one'', ''two'']"
  let ?self = "CitationScraper ''http://q''"
  have h1: "two_page_parser [] = Inr []" by (simp add: two_page_parser_def)
  have h6: "?us ! 0 = base_url ?self @ ''/page/1/''" by (simp add: CitationScraper_def)
  have h7: "\<forall>i<2. get_page_content (two_page_site i (?us ! i)) = Inr (Some (?bs ! i))"
    by (simp add: less_Suc_eq numeral_2_eq_2 two_page_site_def get_page_content_def raise_for_status_def)
  have n1: "get_next_page_url two_page_parser ''http://q'' ''one'' = Inr (Some ''http://q/page/2/'')"
    by (simp add: get_next_page_url_def two_page_parser_def first_page_def BeautifulSoup_def
          find_first_def find_all_def)
  have n2: "get_next_page_url two_page_parser ''http://q'' ''two'' = Inr None"
    by (simp add: get_next_page_url_def two_page_parser_def second_page_def BeautifulSoup_def
          find_first_def find_all_def)
  have h8: "\<forall>i. Suc i < 2 \<longrightarrow>
           get_next_page_url two_page_parser (base_url ?self) (?bs ! i) = Inr (Some (?us ! Suc i))
           \<and> ?us ! Suc i \<noteq> []"
    using n1 by (simp add: CitationScraper_def)
  have h9: "get_next_page_url two_page_parser (base_url ?self) (?bs ! (2 - 1)) = Inr None"
    using n2 by (simp add: CitationScraper_def)
  have p1: "map_sum id (map texto) (parse_quote_page two_page_parser (fixed_clock 0) ''one'')
      = Inr [''First'']"
    by (simp add: parse_quote_page_def quote_divs_def two_page_parser_def first_page_def
          BeautifulSoup_def find_first_def find_all_def extract_quote_def normalize_text_def
          py_strip_def quote_glyph_def Let_def)
  have p2: "map_sum id (map texto) (parse_quote_page two_page_parser (fixed_clock 1) ''two'')
      = Inr [''Second'']"
    by (simp add: parse_quote_page_def quote_divs_def two_page_parser_def second_page_def
          BeautifulSoup_def find_first_def find_all_def extract_quote_def normalize_text_def
          py_strip_def quote_glyph_def Let_def)
  from scrape_all_pages_until_last_page [of two_page_parser ?us 2 ?bs 5 ?self two_page_site fixed_clock,
      OF h1 _ _ _ _ h6 h7 h8 h9]
  obtain qs where f: "fetched (events (fst (scrape_all_pages two_page_parser two_page_site fixed_clock ?self 5))) = ?us"
    and l: "length qs = 2"
    and e: "\<forall>i<2. parse_quote_page two_page_parser (fixed_clock i) (?bs ! i) = Inr (qs ! i)"
    and q: "quotes_data (fst (scrape_all_pages two_page_parser two_page_site fixed_clock ?self 5))
           = self_quotes_data ?self @ concat qs"
    by auto
  from l obtain a b where ab: "qs = [a, b]"
    by (auto simp: numeral_2_eq_2 length_Suc_conv)
  have e0: "parse_quote_page two_page_parser (fixed_clock 0) ''one'' = Inr a"
    using e [rule_format, of 0] ab by simp
  have e1: "parse_quote_page two_page_parser (fixed_clock 1) ''two'' = Inr b"
    using e [rule_format, of 1] ab by simp
  from p1 e0 have t0: "map texto a = [''First'']" by simp
  from p2 e1 have t1: "map texto b = [''Second'']" by simp
  from q ab t0 t1 have "map texto (quotes_data (fst (scrape_all_pages two_page_parser two_page_site
      fixed_clock ?self 5))) = [''First'', ''Second'']"
    by (simp add: CitationScraper_def)
  with f show ?thesis by simp
qed

section \<open>Properties of the dataset writer\<close>

text \<open>
  Claim C9, as stated, says that with no entries the writer signals "no data". When
  \<open>dados\<close> is a regular file, \<open>os.makedirs\<close>, which runs before the emptiness test and
  outside the \<open>try\<close>, raises: the exception leaves the writer and nothing is printed.
\<close>

theorem save_to_csv_makedirs_counterexample:
  "self_quotes_data (CitationScraper ''http://quotes.toscrape.com'') = [] \<and>
   returned (save_to_csv (\<lambda>header rows. py_join '','' header) dados_is_file
      (CitationScraper ''http://quotes.toscrape.com'') ''citacoes_coletadas.csv'') = Inl OSError \<and>
   printed (save_to_csv (\<lambda>header rows. py_join '','' header) dados_is_file
      (CitationScraper ''http://quotes.toscrape.com'') ''citacoes_coletadas.csv'') = []"
  by (simp add: save_to_csv_def makedirs_def dados_is_file_def CitationScraper_def)

text \<open>
  Claim C9, amended: when the accumulated entries are empty, \<open>save_to_csv\<close> creates or
  changes no file, not even a header-only one. It first makes sure of the directory
  \<open>dados\<close>: when the directory is there or can be made, the writer prints the no-data line
  and returns \<open>None\<close>; when \<open>os.makedirs\<close> raises, its exception leaves the writer, which
  prints nothing and leaves the file system as it was. A path is returned, and a file
  written or changed, only when there is at least one entry, and the file then holds the
  header and the rows.
\<close>

theorem save_to_csv_no_data:
  "(self_quotes_data self = [] \<longrightarrow>
      (\<forall>p c. nodes (disk (save_to_csv csv_text fs self filename)) p = Some (File c)
              \<longrightarrow> nodes fs p = Some (File c)) \<and>
      (makedirs fs ''dados'' = Inr fs1 \<longrightarrow>
         returned (save_to_csv csv_text fs self filename) = Inr None \<and>
         printed (save_to_csv csv_text fs self filename) = [Nenhum_dado_para_salvar]) \<and>
      (makedirs fs ''dados'' = Inl err \<longrightarrow>
         returned (save_to_csv csv_text fs self filename) = Inl err \<and>
         printed (save_to_csv csv_text fs self filename) = [] \<and>
         disk (save_to_csv csv_text fs self filename) = fs)) \<and>
   (returned (save_to_csv csv_text fs self filename) = Inr (Some path) \<longrightarrow>
      self_quotes_data self \<noteq> [] \<and>
      nodes (disk (save_to_csv csv_text fs self filename)) path
        = Some (File (csv_text fieldnames (self_quotes_data self)))) \<and>
   (nodes (disk (save_to_csv csv_text fs self filename)) p = Some (File c) \<and>
    nodes fs p \<noteq> Some (File c) \<longrightarrow> self_quotes_data self \<noteq> [])"
proof -
  have mk: "\<And>fs'. makedirs fs ''dados'' = Inr fs' \<Longrightarrow>
      (\<forall>p c. nodes fs' p = Some (File c) \<longrightarrow> nodes fs p = Some (File c))"
    by (auto simp: makedirs_def split: option.splits fs_node.splits if_splits)
  show ?thesis
  proof (cases "makedirs fs ''dados''")
    case (Inl e)
    then show ?thesis by (simp add: save_to_csv_def)
  next
    case (Inr fs')
    show ?thesis
    proof (cases "self_quotes_data self = []")
      case True
      with Inr mk [OF Inr] show ?thesis by (simp add: save_to_csv_def Let_def)
    next
      case False
      with Inr show ?thesis by (simp add: save_to_csv_def Let_def)
    qed
  qed
qed

theorem save_to_csv_no_data_witness:
  "returned (save_to_csv (\<lambda>header rows. py_join '','' header) empty_fs (CitationScraper ''http://q'')
      ''citacoes_coletadas.csv'') = Inr None \<and>
   printed (save_to_csv (\<lambda>header rows. py_join '','' header) empty_fs (CitationScraper ''http://q'')
      ''citacoes_coletadas.csv'') = [Nenhum_dado_para_salvar] \<and>
   nodes (disk (save_to_csv (\<lambda>header rows. py_join '','' header) empty_fs (CitationScraper ''http://q'')
      ''citacoes_coletadas.csv'')) ''dados/citacoes_coletadas.csv''
     \<noteq> Some (File (py_join '','' fieldnames)) \<and>
   disk (save_to_csv (\<lambda>header rows. py_join '','' header) dados_is_file (CitationScraper ''http://q'')
      ''citacoes_coletadas.csv'') = dados_is_file \<and>
   nodes (disk (save_to_csv (\<lambda>header rows. py_join '','' header) empty_fs one_quote
      ''citacoes_coletadas.csv'')) ''dados/citacoes_coletadas.csv''
     = Some (File (py_join '','' fieldnames)) \<and>
   self_quotes_data one_quote \<noteq> []"
proof -
  let ?csv = "\<lambda>(header::string list) (rows::entry list). py_join '','' header"
  let ?path = "''dados/citacoes_coletadas.csv''"
  let ?fs1 = "empty_fs\<lparr>nodes := (nodes empty_fs)(''dados'' \<mapsto> Dir)\<rparr>"
  have none: "self_quotes_data (CitationScraper ''http://q'') = []"
    by (simp add: CitationScraper_def)
  have mk: "makedirs empty_fs ''dados'' = Inr ?fs1"
    by (simp add: makedirs_def empty_fs_def)
  have mk_fails: "makedirs dados_is_file ''dados'' = Inl OSError"
    by (simp add: makedirs_def dados_is_file_def)
  have before: "nodes empty_fs ?path \<noteq> Some (File (py_join '','' fieldnames))"
    by (simp add: empty_fs_def)
  have ret: "returned (save_to_csv ?csv empty_fs one_quote ''citacoes_coletadas.csv'') = Inr (Some ?path)"
    by (simp add: save_to_csv_def makedirs_def empty_fs_def one_quote_def os_path_join_def Let_def)
  from save_to_csv_no_data [of "CitationScraper ''http://q''" ?csv empty_fs "''citacoes_coletadas.csv''"
      ?fs1 OSError ?path ?path "py_join '','' fieldnames"] none mk before
  have a: "returned (save_to_csv ?csv empty_fs (CitationScraper ''http://q'') ''citacoes_coletadas.csv'') = Inr None"
    and b: "printed (save_to_csv ?csv empty_fs (CitationScraper ''http://q'') ''citacoes_coletadas.csv'')
         = [Nenhum_dado_para_salvar]"
    and c: "nodes (disk (save_to_csv ?csv empty_fs (CitationScraper ''http://q'') ''citacoes_coletadas.csv'')) ?path
         \<noteq> Some (File (py_join '','' fieldnames))"
    by blast+
  from save_to_csv_no_data [of "CitationScraper ''http://q''" ?csv dados_is_file "''citacoes_coletadas.csv''"
      ?fs1 OSError ?path ?path "py_join '','' fieldnames"] none mk_fails
  have d: "disk (save_to_csv ?csv dados_is_file (CitationScraper ''http://q'') ''citacoes_coletadas.csv'')
         = dados_is_file"
    by blast
  from save_to_csv_no_data [of one_quote ?csv empty_fs "''citacoes_coletadas.csv''"
      ?fs1 OSError ?path ?path "py_join '','' fieldnames"] ret
  have e: "nodes (disk (save_to_csv ?csv empty_fs one_quote ''citacoes_coletadas.csv'')) ?path
         = Some (File (py_join '','' fieldnames))"
    and f: "self_quotes_data one_quote \<noteq> []"
    by blast+
  show ?thesis
    by (intro conjI) (rule a b c d e f)+
qed

end
